theory Spec2Isabelle
  imports Main "HOL-Library.Word"
begin

unbundle bit_operations_syntax

section \<open>Data model of \<open>PowGiverContract.ts\<close>\<close>

text \<open>
  A \<open>Buffer\<close> is a sequence of bytes. \<open>Buffer.concat\<close> is list concatenation,
  \<open>Buffer.equals\<close> is equality of the two byte sequences.
\<close>

type_synonym byte = "8 word"
type_synonym buffer = "byte list"

text \<open>
  The errors the modelled code can raise. \<open>Error msg\<close> is the JavaScript
  \<open>throw Error(msg)\<close> of the source; \<open>RangeError\<close> is what \<open>Buffer.alloc\<close>
  raises for a negative size; \<open>OutOfRangeError\<close> is the error of the bit reader.
\<close>

datatype error = Error string | RangeError | OutOfRangeError

text \<open>The error of the workchain guard, with the message of the source.\<close>

definition UnsupportedWorkchainError :: error where
  "UnsupportedWorkchainError = Error ''Only walelts in basic workchain are supported''"

text \<open>The two fields of \<open>Address\<close> that the source reads.\<close>

record address =
  workChain :: int
  hash :: buffer

text \<open>
  The outbound envelope: \<open>new ExternalMessage({to, body: new CommonMessageInfo({body:
  new BinaryMessage(body)})})\<close>.
\<close>

datatype binaryMessage = BinaryMessage buffer
datatype commonMessageInfo = CommonMessageInfo binaryMessage
datatype externalMessage = ExternalMessage address commonMessageInfo

fun messageTo :: "externalMessage \<Rightarrow> address" where
  "messageTo (ExternalMessage t b) = t"

fun messageBody :: "externalMessage \<Rightarrow> buffer" where
  "messageBody (ExternalMessage t (CommonMessageInfo (BinaryMessage b))) = b"

section \<open>Runtime operations on buffers and strings\<close>

text \<open>
  \<open>Buffer.alloc(size)\<close>: a zero-filled buffer of \<open>size\<close> bytes; a negative size
  raises a range error. Sizes are integers; the allocation limit of the platform is not
  modelled.
\<close>

definition Buffer_alloc :: "int \<Rightarrow> error + buffer" where
  "Buffer_alloc sz = (if sz < 0 then Inl RangeError else Inr (replicate (nat sz) 0))"

text \<open>
  \<open>res[idx] = v\<close> on a typed array: an index outside \<open>0 .. length - 1\<close> stores
  nothing and raises nothing.
\<close>

definition set_index :: "buffer \<Rightarrow> int \<Rightarrow> byte \<Rightarrow> buffer" where
  "set_index res idx v = (if 0 \<le> idx \<and> idx < int (length res) then res[nat idx := v] else res)"

text \<open>
  \<open>Buffer.from(str)\<close> for a string of ASCII characters: one byte per character.
\<close>

definition Buffer_from_string :: "string \<Rightarrow> buffer" where
  "Buffer_from_string s = map (\<lambda>c. of_nat (of_char c)) s"

text \<open>
  A JavaScript string is a sequence of 16-bit code units; \<open>length\<close>, \<open>slice\<close>,
  \<open>startsWith\<close> and \<open>+\<close> work on code units. \<open>str\<close> gives the code units of a
  string literal of ASCII characters.
\<close>

type_synonym code_unit = "16 word"
type_synonym js_string = "code_unit list"

definition str :: "string \<Rightarrow> js_string" where
  "str s = map (\<lambda>c. of_nat (of_char c)) s"

text \<open>\<open>src.startsWith(p)\<close>.\<close>

definition startsWith :: "js_string \<Rightarrow> js_string \<Rightarrow> bool" where
  "startsWith src p = (take (length p) src = p)"

text \<open>
  The value of a hexadecimal digit given by its character code: \<open>0\<close> to \<open>9\<close>,
  \<open>A\<close> to \<open>F\<close>, \<open>a\<close> to \<open>f\<close>. A code unit is a hexadecimal digit when its
  code is one of these.
\<close>

definition hexDigitValue :: "nat \<Rightarrow> nat option" where
  "hexDigitValue n =
     (if 48 \<le> n \<and> n \<le> 57 then Some (n - 48)
      else if 65 \<le> n \<and> n \<le> 70 then Some (n - 55)
      else if 97 \<le> n \<and> n \<le> 102 then Some (n - 87)
      else None)"

definition isHexDigit :: "code_unit \<Rightarrow> bool" where
  "isHexDigit c = (hexDigitValue (unat c) \<noteq> None)"

text \<open>
  \<open>Buffer.from(str, 'hex')\<close>: the string is decoded two code units at a time; decoding
  stops at the first pair that is incomplete or holds a code unit that the decoder does
  not read as a hexadecimal digit, and the bytes decoded so far are the result. No error
  is raised. The decoder reads a code unit through a cast to 8 bits: only its low byte
  counts. For a code unit below 256 that is the character itself; a code unit such as
  \<open>0x0131\<close> is read as its low byte \<open>0x31\<close>, the digit \<open>1\<close>.
\<close>

definition unhex :: "code_unit \<Rightarrow> nat option" where
  "unhex c = hexDigitValue (unat c mod 256)"

fun hexDecode :: "js_string \<Rightarrow> buffer" where
  "hexDecode (a # b # rest) =
     (case unhex a of
        None \<Rightarrow> []
      | Some x \<Rightarrow> (case unhex b of
          None \<Rightarrow> []
        | Some y \<Rightarrow> of_nat (16 * x + y) # hexDecode rest))"
| "hexDecode [a] = []"
| "hexDecode [] = []"


section \<open>The helpers \<open>padded\<close> and \<open>parseHex\<close>\<close>

text \<open>
  The loop of \<open>padded\<close>:
  \<^verbatim>\<open>for (let i = 0; i < data.length; i++) { res[i + (size - data.length)] = data[i]; }\<close>
\<close>

function padded_loop :: "buffer \<Rightarrow> int \<Rightarrow> nat \<Rightarrow> buffer \<Rightarrow> buffer" where
  "padded_loop data sz i res =
     (if i < length data
      then padded_loop data sz (Suc i)
             (set_index res (int i + (sz - int (length data))) (data ! i))
      else res)"
  by pat_completeness auto
termination
  by (relation "measure (\<lambda>(data, sz, i, res). length data - i)") auto

declare padded_loop.simps [simp del]

definition padded :: "buffer \<Rightarrow> int \<Rightarrow> error + buffer" where
  "padded data sz =
     (case Buffer_alloc sz of
        Inl e \<Rightarrow> Inl e
      | Inr res \<Rightarrow> Inr (padded_loop data sz 0 res))"

text \<open>
  The three normalising statements at the head of \<open>parseHex\<close>: an \<open>x\<close> is stripped,
  then a \<open>0x\<close> is stripped, then a string of odd length gets a \<open>0\<close> in front.
\<close>

definition parseHex_normalise :: "js_string \<Rightarrow> js_string" where
  "parseHex_normalise src =
     (let src1 = (if startsWith src (str ''x'') then drop 1 src else src);
          src2 = (if startsWith src1 (str ''0x'') then drop 2 src1 else src1);
          src3 = (if length src2 mod 2 \<noteq> 0 then str ''0'' @ src2 else src2)
      in src3)"

text \<open>\<open>parseHex\<close> has no failing branch: its result is always a buffer.\<close>

definition parseHex :: "js_string \<Rightarrow> error + buffer" where
  "parseHex src = Inr (hexDecode (parseHex_normalise src))"


section \<open>Mining jobs\<close>

text \<open>
  Modelled from the spec: \<open>createUInt32\<close> lives in \<open>./utils/createUInt32\<close>, which is
  not among the sources. The spec gives the expiry as an unsigned 32-bit value encoded
  big-endian in 4 bytes.
\<close>

definition createUInt32 :: "32 word \<Rightarrow> buffer" where
  "createUInt32 v = [ucast (drop_bit 24 v), ucast (drop_bit 16 v), ucast (drop_bit 8 v), ucast v]"

definition createMiningJobHeader :: "address \<Rightarrow> 32 word \<Rightarrow> buffer" where
  "createMiningJobHeader wallet expiresSec =
     concat [[0x0, 0xF2],
             Buffer_from_string ''Mine'',
             [0],
             createUInt32 expiresSec,
             hash wallet]"

definition createMiningJob :: "buffer \<Rightarrow> buffer \<Rightarrow> address \<Rightarrow> 32 word \<Rightarrow> error + buffer" where
  "createMiningJob seed random wallet expiresSec =
     (if workChain wallet \<noteq> 0 then Inl UnsupportedWorkchainError
      else Inr (concat [createMiningJobHeader wallet expiresSec, random, seed, random]))"

text \<open>
  \<open>checkMiningJobHash\<close>; the hash primitive \<open>sha256\<close> of \<open>ton-crypto\<close> is a
  parameter. An error of \<open>createMiningJob\<close> propagates.
\<close>

definition checkMiningJobHash ::
  "(buffer \<Rightarrow> buffer) \<Rightarrow> buffer \<Rightarrow> buffer \<Rightarrow> address \<Rightarrow> 32 word \<Rightarrow> buffer \<Rightarrow> error + bool" where
  "checkMiningJobHash sha256 seed random wallet expiresSec candidate =
     (case createMiningJob seed random wallet expiresSec of
        Inl e \<Rightarrow> Inl e
      | Inr job \<Rightarrow> Inr (candidate = sha256 job))"

definition createMiningMessage ::
  "address \<Rightarrow> buffer \<Rightarrow> buffer \<Rightarrow> address \<Rightarrow> 32 word \<Rightarrow> error + externalMessage" where
  "createMiningMessage giver seed random wallet expiresSec =
     (if workChain wallet \<noteq> 0 then Inl UnsupportedWorkchainError
      else
        (let body = concat [Buffer_from_string ''Mine'',
                            [0],
                            createUInt32 expiresSec,
                            hash wallet,
                            random,
                            seed,
                            random]
         in Inr (ExternalMessage giver (CommonMessageInfo (BinaryMessage body)))))"

section \<open>Reading the proof-of-work parameters from the contract state\<close>

text \<open>
  Modelled from the spec: \<open>BitStringReader\<close> is imported from the package \<open>ton\<close> and
  is not among the sources. The spec describes it as a forward-only cursor over a fixed
  bit sequence, starting at bit 0: \<open>skip(n)\<close> advances the cursor by \<open>n\<close> bits and
  fails with \<open>OutOfRangeError\<close> if the cursor would exceed the length of the
  sequence; \<open>readBuffer(n)\<close> reads \<open>8 * n\<close> bits at the cursor, advances the cursor by
  that amount and returns them as bytes in the bit order in which they are stored (the
  first bit read is the most significant bit of the first byte), failing with
  \<open>OutOfRangeError\<close> when too few bits remain.
\<close>

record bitStringReader =
  bits :: "bool list"
  offset :: nat

definition newBitStringReader :: "bool list \<Rightarrow> bitStringReader" where
  "newBitStringReader bs = \<lparr>bits = bs, offset = 0\<rparr>"

definition skip :: "nat \<Rightarrow> bitStringReader \<Rightarrow> error + bitStringReader" where
  "skip n r =
     (if length (bits r) < offset r + n then Inl OutOfRangeError
      else Inr (r\<lparr>offset := offset r + n\<rparr>))"

definition byteOfBits :: "bool list \<Rightarrow> byte" where
  "byteOfBits bs = horner_sum of_bool 2 (rev bs)"

primrec bytesOfBits :: "nat \<Rightarrow> bool list \<Rightarrow> buffer" where
  "bytesOfBits 0 bs = []"
| "bytesOfBits (Suc n) bs = byteOfBits (take 8 bs) # bytesOfBits n (drop 8 bs)"

definition readBuffer :: "nat \<Rightarrow> bitStringReader \<Rightarrow> error + (buffer \<times> bitStringReader)" where
  "readBuffer n r =
     (if length (bits r) < offset r + 8 * n then Inl OutOfRangeError
      else Inr (bytesOfBits n (drop (offset r) (bits r)), r\<lparr>offset := offset r + 8 * n\<rparr>))"

text \<open>The state cell, reduced to the bit sequence \<open>cell.bits\<close> that the source reads.\<close>

record cell =
  cellBits :: "bool list"

record powParams =
  seed :: buffer
  complexity :: buffer

definition extractPowParamsFromState :: "cell \<Rightarrow> error + powParams" where
  "extractPowParamsFromState c =
     (case skip (32 + 32 + 256) (newBitStringReader (cellBits c)) of
        Inl e \<Rightarrow> Inl e
      | Inr r1 \<Rightarrow>
          (case readBuffer (128 div 8) r1 of
             Inl e \<Rightarrow> Inl e
           | Inr (sd, r2) \<Rightarrow>
               (case readBuffer (256 div 8) r2 of
                  Inl e \<Rightarrow> Inl e
                | Inr (cx, r3) \<Rightarrow> Inr \<lparr>seed = sd, complexity = cx\<rparr>)))"

section \<open>Properties of the helpers\<close>

subsection \<open>The copy loop of \<open>padded\<close>\<close>

lemma set_index_nat: "k < length res \<Longrightarrow> set_index res (int k) v = res[k := v]"
  by (simp add: set_index_def)

text \<open>
  When the data fits, the loop has filled the positions up to \<open>size - length + i\<close> and
  the rest of the data follows.
\<close>

lemma padded_loop_fits:
  "int (length data) \<le> sz \<Longrightarrow> length res = nat sz \<Longrightarrow> i \<le> length data \<Longrightarrow>
   padded_loop data sz i res = take (nat sz - length data + i) res @ drop i data"
proof (induction data sz i res rule: padded_loop.induct)
  case (1 data sz i res)
  show ?case
  proof (cases "i < length data")
    case False
    with "1.prems" show ?thesis by (subst padded_loop.simps) simp
  next
    case True
    let ?k = "nat sz - length data + i"
    have idx: "int i + (sz - int (length data)) = int ?k"
      using "1.prems" by simp
    have k: "?k < length res"
      using "1.prems" True by linarith
    have upd: "set_index res (int i + (sz - int (length data))) (data ! i) = res[?k := data ! i]"
      using k by (simp only: idx set_index_nat)
    have "padded_loop data sz i res = padded_loop data sz (Suc i) (res[?k := data ! i])"
      using True upd by (subst padded_loop.simps) simp
    also have "\<dots> = take (nat sz - length data + Suc i) (res[?k := data ! i]) @ drop (Suc i) data"
      using "1.IH" [OF True] "1.prems" True upd by simp
    also have "take (nat sz - length data + Suc i) (res[?k := data ! i]) = take ?k res @ [data ! i]"
      using k by (simp add: take_Suc_conv_app_nth)
    also have "(take ?k res @ [data ! i]) @ drop (Suc i) data = take ?k res @ drop i data"
      using True by (simp add: Cons_nth_drop_Suc)
    finally show ?thesis .
  qed
qed

text \<open>
  When the data is longer than the buffer, the first \<open>length - size\<close> stores fall on
  negative indices and are dropped; the later ones fill the buffer from index 0.
\<close>

lemma padded_loop_oversize:
  "0 \<le> sz \<Longrightarrow> sz < int (length data) \<Longrightarrow> length res = nat sz \<Longrightarrow> i \<le> length data \<Longrightarrow>
   padded_loop data sz i res =
     take (i - (length data - nat sz)) res @ drop (max i (length data - nat sz)) data"
proof (induction data sz i res rule: padded_loop.induct)
  case (1 data sz i res)
  let ?d = "length data - nat sz"
  show ?case
  proof (cases "i < length data")
    case False
    with "1.prems" show ?thesis by (subst padded_loop.simps) simp
  next
    case True
    show ?thesis
    proof (cases "i < ?d")
      case below: True
      have "int i + (sz - int (length data)) < 0"
        using below "1.prems" by linarith
      then have upd: "set_index res (int i + (sz - int (length data))) (data ! i) = res"
        by (simp add: set_index_def)
      have "padded_loop data sz i res = padded_loop data sz (Suc i) res"
        using True upd by (subst padded_loop.simps) simp
      also have "\<dots> = take (Suc i - ?d) res @ drop (max (Suc i) ?d) data"
        using "1.IH" [OF True] "1.prems" True upd by simp
      also have "\<dots> = take (i - ?d) res @ drop (max i ?d) data"
        using below by (simp add: max_def)
      finally show ?thesis .
    next
      case above: False
      let ?k = "i - ?d"
      have idx: "int i + (sz - int (length data)) = int ?k"
        using above "1.prems" by linarith
      have k: "?k < length res"
        using "1.prems" True above by linarith
      have upd: "set_index res (int i + (sz - int (length data))) (data ! i) = res[?k := data ! i]"
        using k by (simp only: idx set_index_nat)
      have "padded_loop data sz i res = padded_loop data sz (Suc i) (res[?k := data ! i])"
        using True upd by (subst padded_loop.simps) simp
      also have "\<dots> = take (Suc i - ?d) (res[?k := data ! i]) @ drop (max (Suc i) ?d) data"
        using "1.IH" [OF True] "1.prems" True upd by simp
      also have "take (Suc i - ?d) (res[?k := data ! i]) = take ?k res @ [data ! i]"
      proof -
        have "Suc i - ?d = Suc ?k" using above by simp
        then show ?thesis using k by (simp add: take_Suc_conv_app_nth)
      qed
      also have "max (Suc i) ?d = Suc i" using above by simp
      also have "(take ?k res @ [data ! i]) @ drop (Suc i) data = take ?k res @ drop (max i ?d) data"
        using True above by (simp add: Cons_nth_drop_Suc max_def)
      finally show ?thesis .
    qed
  qed
qed

lemma padded_fits:
  "int (length data) \<le> sz \<Longrightarrow> padded data sz = Inr (replicate (nat sz - length data) 0 @ data)"
  by (simp add: padded_def Buffer_alloc_def padded_loop_fits)

lemma padded_drop:
  "0 \<le> sz \<Longrightarrow> sz < int (length data) \<Longrightarrow> padded data sz = Inr (drop (length data - nat sz) data)"
  by (simp add: padded_def Buffer_alloc_def padded_loop_oversize)

lemma padded_negative: "sz < 0 \<Longrightarrow> padded data sz = Inl RangeError"
  by (simp add: padded_def Buffer_alloc_def)

subsection \<open>Hexadecimal decoding\<close>

lemma str_x: "str ''x'' = [0x78]"
  by (simp add: str_def)

lemma str_0x: "str ''0x'' = [0x30, 0x78]"
  by (simp add: str_def)

lemma str_0: "str ''0'' = [0x30]"
  by (simp add: str_def)

text \<open>A hexadecimal digit is below 256, so the decoder reads it as it is.\<close>

lemma hexDigitValue_small: "hexDigitValue n \<noteq> None \<Longrightarrow> n < 256"
  by (simp add: hexDigitValue_def split: if_splits)

lemma isHexDigit_unhex: "isHexDigit c \<Longrightarrow> unhex c \<noteq> None"
proof -
  assume h: "isHexDigit c"
  then have "unat c < 256"
    by (simp add: isHexDigit_def hexDigitValue_small)
  then have "unat c mod 256 = unat c" by simp
  with h show ?thesis by (simp add: isHexDigit_def unhex_def)
qed

lemma x_not_hex: "\<not> isHexDigit 0x78"
  by (simp add: isHexDigit_def hexDigitValue_def)

lemma hexDecode_bad_pair:
  "\<not> (unhex a \<noteq> None \<and> unhex b \<noteq> None) \<Longrightarrow> hexDecode (a # b # r) = []"
  by (auto split: option.splits)

lemma hexDecode_append:
  "even (length p) \<Longrightarrow> \<forall>c\<in>set p. unhex c \<noteq> None \<Longrightarrow>
   hexDecode (p @ q) = hexDecode p @ hexDecode q"
  by (induction p rule: hexDecode.induct) (auto split: option.splits)

lemma hexDecode_length:
  "even (length p) \<Longrightarrow> \<forall>c\<in>set p. unhex c \<noteq> None \<Longrightarrow> length (hexDecode p) = length p div 2"
  by (induction p rule: hexDecode.induct) (auto split: option.splits)

text \<open>Byte \<open>i\<close> of the result comes from the code units \<open>2 i\<close> and \<open>2 i + 1\<close>.\<close>

lemma hexDecode_nth:
  "even (length p) \<Longrightarrow> \<forall>c\<in>set p. unhex c \<noteq> None \<Longrightarrow> i < length p div 2 \<Longrightarrow>
   \<exists>x y. unhex (p ! (2 * i)) = Some x \<and> unhex (p ! (2 * i + 1)) = Some y \<and>
     hexDecode p ! i = of_nat (16 * x + y)"
proof (induction p arbitrary: i rule: hexDecode.induct)
  case (1 a b rest)
  from "1.prems" obtain x y where xy: "unhex a = Some x" "unhex b = Some y"
    by auto
  show ?case
  proof (cases i)
    case 0
    with xy show ?thesis by simp
  next
    case (Suc j)
    with "1.prems" have "even (length rest)" "\<forall>c\<in>set rest. unhex c \<noteq> None"
      "j < length rest div 2"
      by auto
    from "1.IH" [OF xy this] Suc xy show ?thesis by simp
  qed
next
  case (2 a)
  then show ?case by simp
next
  case 3
  then show ?case by simp
qed

text \<open>
  A string of even length splits into the pairs the decoder accepts and a rest that is
  empty or starts with a pair it refuses.
\<close>

lemma accepted_prefix:
  "even (length s) \<Longrightarrow>
   \<exists>p r. s = p @ r \<and> even (length p) \<and> (\<forall>c\<in>set p. unhex c \<noteq> None) \<and>
     (r = [] \<or> (\<exists>a b t. r = a # b # t \<and> \<not> (unhex a \<noteq> None \<and> unhex b \<noteq> None)))"
proof (induction s rule: hexDecode.induct)
  case (1 a b rest)
  show ?case
  proof (cases "unhex a \<noteq> None \<and> unhex b \<noteq> None")
    case False
    then have "a # b # rest = [] @ a # b # rest \<and> even (length ([]::js_string)) \<and>
        (\<forall>c\<in>set ([]::js_string). unhex c \<noteq> None) \<and>
        (\<exists>a' b' t. a # b # rest = a' # b' # t \<and> \<not> (unhex a' \<noteq> None \<and> unhex b' \<noteq> None))"
      by simp
    then show ?thesis by blast
  next
    case True
    then obtain x y where xy: "unhex a = Some x" "unhex b = Some y"
      by auto
    from "1.prems" have "even (length rest)" by simp
    with "1.IH" [OF xy] obtain p r where
      p: "rest = p @ r" "even (length p)" "\<forall>c\<in>set p. unhex c \<noteq> None"
         "r = [] \<or> (\<exists>a b t. r = a # b # t \<and> \<not> (unhex a \<noteq> None \<and> unhex b \<noteq> None))"
      by blast
    have "a # b # rest = (a # b # p) @ r \<and> even (length (a # b # p)) \<and>
        (\<forall>c\<in>set (a # b # p). unhex c \<noteq> None)"
      using p True by simp
    with p(4) show ?thesis by blast
  qed
next
  case (2 a)
  then show ?case by simp
next
  case 3
  then show ?case by simp
qed

lemma hexDecode_prefix:
  assumes "even (length p)" "\<forall>c\<in>set p. unhex c \<noteq> None"
    and "r = [] \<or> (\<exists>a b t. r = a # b # t \<and> \<not> (unhex a \<noteq> None \<and> unhex b \<noteq> None))"
  shows "hexDecode (p @ r) = hexDecode p"
proof -
  have "hexDecode r = []"
  proof (cases "r = []")
    case True
    then show ?thesis by simp
  next
    case False
    with assms(3) obtain a b t where
      "r = a # b # t" "\<not> (unhex a \<noteq> None \<and> unhex b \<noteq> None)"
      by blast
    then show ?thesis using hexDecode_bad_pair [of a b t] by simp
  qed
  with hexDecode_append [OF assms(1,2)] show ?thesis by simp
qed

lemma pad_odd_even: "even (length (if length s mod 2 \<noteq> 0 then str ''0'' @ s else s))"
proof (cases "even (length s)")
  case True
  then show ?thesis by (simp add: even_iff_mod_2_eq_zero)
next
  case False
  then show ?thesis by (simp add: odd_iff_mod_2_eq_one str_0)
qed

lemma parseHex_normalise_even: "even (length (parseHex_normalise src))"
  unfolding parseHex_normalise_def Let_def by (rule pad_odd_even)

text \<open>A string of hexadecimal digits starts with no marker.\<close>

lemma digits_no_x: "\<forall>c\<in>set s. isHexDigit c \<Longrightarrow> \<not> startsWith s (str ''x'')"
  by (cases s) (auto simp: startsWith_def str_x x_not_hex)

lemma digits_no_0x: "\<forall>c\<in>set s. isHexDigit c \<Longrightarrow> \<not> startsWith s (str ''0x'')"
proof (cases s)
  case Nil
  then show ?thesis by (simp add: startsWith_def str_0x)
next
  case (Cons a t)
  assume h: "\<forall>c\<in>set s. isHexDigit c"
  show ?thesis
  proof (cases t)
    case Nil
    with Cons show ?thesis by (simp add: startsWith_def str_0x)
  next
    case (Cons b u)
    with \<open>s = a # t\<close> h have "isHexDigit b" by simp
    then have "b \<noteq> 0x78" using x_not_hex by auto
    with Cons \<open>s = a # t\<close> show ?thesis by (simp add: startsWith_def str_0x)
  qed
qed

lemma normalise_digits:
  "\<forall>c\<in>set s. isHexDigit c \<Longrightarrow>
   parseHex_normalise s = (if length s mod 2 \<noteq> 0 then str ''0'' @ s else s)"
  by (simp add: parseHex_normalise_def digits_no_x digits_no_0x)

lemma normalise_x_digits:
  "\<forall>c\<in>set s. isHexDigit c \<Longrightarrow> parseHex_normalise (str ''x'' @ s) = parseHex_normalise s"
proof -
  assume h: "\<forall>c\<in>set s. isHexDigit c"
  have "startsWith (str ''x'' @ s) (str ''x'')" by (simp add: startsWith_def)
  moreover have "drop 1 (str ''x'' @ s) = s" by (simp add: str_x)
  ultimately have "parseHex_normalise (str ''x'' @ s) =
      (if length s mod 2 \<noteq> 0 then str ''0'' @ s else s)"
    using digits_no_0x [OF h] by (simp add: parseHex_normalise_def)
  with normalise_digits [OF h] show ?thesis by simp
qed

lemma normalise_0x_digits:
  "\<forall>c\<in>set s. isHexDigit c \<Longrightarrow> parseHex_normalise (str ''0x'' @ s) = parseHex_normalise s"
proof -
  assume h: "\<forall>c\<in>set s. isHexDigit c"
  have "\<not> startsWith (str ''0x'' @ s) (str ''x'')" by (simp add: startsWith_def str_0x str_x)
  moreover have "startsWith (str ''0x'' @ s) (str ''0x'')" by (simp add: startsWith_def)
  moreover have "drop 2 (str ''0x'' @ s) = s" by (simp add: str_0x)
  ultimately have "parseHex_normalise (str ''0x'' @ s) =
      (if length s mod 2 \<noteq> 0 then str ''0'' @ s else s)"
    by (simp add: parseHex_normalise_def)
  with normalise_digits [OF h] show ?thesis by simp
qed

lemma normalise_0_digits:
  "\<forall>c\<in>set s. isHexDigit c \<Longrightarrow> odd (length s) \<Longrightarrow>
   parseHex_normalise (str ''0'' @ s) = parseHex_normalise s"
proof -
  assume h: "\<forall>c\<in>set s. isHexDigit c" and o: "odd (length s)"
  have z: "isHexDigit 0x30" by (simp add: isHexDigit_def hexDigitValue_def)
  with h have h': "\<forall>c\<in>set (str ''0'' @ s). isHexDigit c" by (simp add: str_0)
  have "even (length (str ''0'' @ s))"
    using o by (simp add: str_0)
  then have "length (str ''0'' @ s) mod 2 = 0"
    by (simp only: even_iff_mod_2_eq_zero)
  then have "parseHex_normalise (str ''0'' @ s) = str ''0'' @ s"
    by (simp only: normalise_digits [OF h']) simp
  moreover have "parseHex_normalise s = str ''0'' @ s"
    using o by (simp add: normalise_digits [OF h] odd_iff_mod_2_eq_one)
  ultimately show ?thesis by simp
qed


subsection \<open>Bytes read from a bit sequence\<close>

lemma bytesOfBits_length: "length (bytesOfBits n bs) = n"
  by (induction n arbitrary: bs) simp_all

lemma bytesOfBits_nth: "k < n \<Longrightarrow> bytesOfBits n bs ! k = byteOfBits (take 8 (drop (8 * k) bs))"
proof (induction n arbitrary: bs k)
  case 0
  then show ?case by simp
next
  case (Suc n)
  show ?case
  proof (cases k)
    case 0
    then show ?thesis by simp
  next
    case (Suc k')
    with Suc.prems have "k' < n" by simp
    from Suc.IH [OF this, of "drop 8 bs"] Suc show ?thesis
      by (simp add: add.commute)
  qed
qed

lemma byteOfBits_bit: "length bs = 8 \<Longrightarrow> j < 8 \<Longrightarrow> bit (byteOfBits bs) (7 - j) = bs ! j"
proof -
  assume len: "length bs = 8" and j: "j < 8"
  have "7 - j < (8::nat)" by simp
  moreover have "rev bs ! (7 - j) = bs ! j"
    using len j by (simp add: rev_nth)
  ultimately show ?thesis
    using len by (simp add: byteOfBits_def bit_horner_sum_bit_word_iff)
qed

lemma bytesOfBits_bit:
  assumes "k < n" "j < 8" "off + 8 * n \<le> length bs"
  shows "bit (bytesOfBits n (drop off bs) ! k) (7 - j) = bs ! (off + 8 * k + j)"
proof -
  have len: "length (take 8 (drop (8 * k) (drop off bs))) = 8"
    using assms by simp
  have "bit (bytesOfBits n (drop off bs) ! k) (7 - j) = take 8 (drop (8 * k) (drop off bs)) ! j"
    using assms(1,2) len by (simp only: bytesOfBits_nth byteOfBits_bit)
  also have "\<dots> = bs ! (off + 8 * k + j)"
    using assms by (simp add: add.assoc add.commute)
  finally show ?thesis .
qed

section \<open>The hashing job and the wire form\<close>

text \<open>
  C1. For every seed, random, wallet in workchain 0 and expiry (and every giver address),
  the buffer returned by \<open>createMiningJob\<close> is the two bytes \<open>0x00, 0xF2\<close> followed by
  the body of the message built by \<open>createMiningMessage\<close> from the same arguments, and
  that body is \<open>'Mine'\<close>, a zero byte, the expiry, the wallet hash, random, seed, random.
\<close>

theorem createMiningJob_prefix_of_message:
  assumes "workChain wallet = 0"
  shows "\<exists>job msg.
           createMiningJob sd rnd wallet expiresSec = Inr job \<and>
           createMiningMessage giver sd rnd wallet expiresSec = Inr msg \<and>
           messageTo msg = giver \<and>
           messageBody msg =
             Buffer_from_string ''Mine'' @ [0] @ createUInt32 expiresSec @ hash wallet @ rnd @ sd @ rnd \<and>
           job = [0x00, 0xF2] @ messageBody msg"
  using assms
  by (simp add: createMiningJob_def createMiningMessage_def createMiningJobHeader_def)

theorem createMiningJob_prefix_of_message_witness:
  "workChain \<lparr>workChain = 0, hash = replicate 32 7\<rparr> = 0 \<and>
   (\<exists>job msg.
      createMiningJob [1, 2] [3] \<lparr>workChain = 0, hash = replicate 32 7\<rparr> 5 = Inr job \<and>
      createMiningMessage \<lparr>workChain = -1, hash = []\<rparr> [1, 2] [3]
        \<lparr>workChain = 0, hash = replicate 32 7\<rparr> 5 = Inr msg \<and>
      messageTo msg = \<lparr>workChain = -1, hash = []\<rparr> \<and>
      messageBody msg =
        Buffer_from_string ''Mine'' @ [0] @ createUInt32 5 @
        hash \<lparr>workChain = 0, hash = replicate 32 7\<rparr> @ [3] @ [1, 2] @ [3] \<and>
      job = [0x00, 0xF2] @ messageBody msg)"
  using createMiningJob_prefix_of_message
    [of "\<lparr>workChain = 0, hash = replicate 32 7\<rparr>" "[1, 2]" "[3]" 5 "\<lparr>workChain = -1, hash = []\<rparr>"]
  by simp

text \<open>
  C2. The concrete end-to-end example: workchain 0, a wallet hash of 32 zero bytes, expiry
  1000000000, a random of 16 bytes \<open>0x11\<close> and a seed of 16 bytes \<open>0x22\<close>. The body of
  the message is \<open>'Mine'\<close> (\<open>4D 69 6E 65\<close>), \<open>00\<close>, \<open>3B 9A CA 00\<close>, the 32 zero
  bytes, random, seed, random, 89 bytes in all; the hashing job is the same bytes after
  \<open>00 F2\<close>, 91 bytes in all.
\<close>

theorem mining_job_concrete_example:
  "createMiningMessage giver (replicate 16 0x22) (replicate 16 0x11)
     \<lparr>workChain = 0, hash = replicate 32 0x00\<rparr> 1000000000 =
   Inr (ExternalMessage giver (CommonMessageInfo (BinaryMessage
     ([0x4D, 0x69, 0x6E, 0x65] @ [0x00] @ [0x3B, 0x9A, 0xCA, 0x00] @ replicate 32 0x00 @
      replicate 16 0x11 @ replicate 16 0x22 @ replicate 16 0x11)))) \<and>
   length ([0x4D, 0x69, 0x6E, 0x65] @ [0x00] @ [0x3B, 0x9A, 0xCA, 0x00] @ replicate 32 0x00 @
      replicate 16 0x11 @ replicate 16 0x22 @ replicate 16 (0x11 :: byte)) = 89 \<and>
   createMiningJob (replicate 16 0x22) (replicate 16 0x11)
     \<lparr>workChain = 0, hash = replicate 32 0x00\<rparr> 1000000000 =
   Inr ([0x00, 0xF2] @
     [0x4D, 0x69, 0x6E, 0x65] @ [0x00] @ [0x3B, 0x9A, 0xCA, 0x00] @ replicate 32 0x00 @
      replicate 16 0x11 @ replicate 16 0x22 @ replicate 16 0x11) \<and>
   length ([0x00, 0xF2] @
     [0x4D, 0x69, 0x6E, 0x65] @ [0x00] @ [0x3B, 0x9A, 0xCA, 0x00] @ replicate 32 0x00 @
      replicate 16 0x11 @ replicate 16 0x22 @ replicate 16 (0x11 :: byte)) = 91"
  by (simp add: createMiningMessage_def createMiningJob_def createMiningJobHeader_def
      Buffer_from_string_def createUInt32_def)

section \<open>The workchain guard\<close>

text \<open>
  C4. For every wallet whose workchain is not 0, \<open>createMiningJob\<close> and
  \<open>createMiningMessage\<close> both fail with the error of the workchain guard, whatever
  the other arguments are; neither returns a buffer or a message.
\<close>

theorem workchain_guard:
  assumes "workChain wallet \<noteq> 0"
  shows "createMiningJob sd rnd wallet expiresSec = Inl UnsupportedWorkchainError \<and>
         createMiningMessage giver sd rnd wallet expiresSec = Inl UnsupportedWorkchainError"
  using assms by (simp add: createMiningJob_def createMiningMessage_def)

theorem workchain_guard_witness:
  "workChain \<lparr>workChain = -1, hash = replicate 32 7\<rparr> \<noteq> 0 \<and>
   createMiningJob [1, 2] [3] \<lparr>workChain = -1, hash = replicate 32 7\<rparr> 5 =
     Inl UnsupportedWorkchainError \<and>
   createMiningMessage \<lparr>workChain = 0, hash = []\<rparr> [1, 2] [3]
     \<lparr>workChain = -1, hash = replicate 32 7\<rparr> 5 = Inl UnsupportedWorkchainError"
proof -
  have h: "workChain \<lparr>workChain = -1, hash = replicate 32 7\<rparr> \<noteq> 0" by simp
  from h workchain_guard [OF h] show ?thesis by (rule conjI)
qed

section \<open>Verification of a hash\<close>

text \<open>
  C5. For every seed, random, wallet in workchain 0, expiry and candidate hash,
  \<open>checkMiningJobHash\<close> raises no error: it returns true exactly when the hash of the
  buffer built by \<open>createMiningJob\<close> is equal, byte for byte, to the candidate, and
  false otherwise. The hash primitive is arbitrary.
\<close>

theorem checkMiningJobHash_iff:
  assumes "workChain wallet = 0"
  shows "\<exists>job. createMiningJob sd rnd wallet expiresSec = Inr job \<and>
           checkMiningJobHash sha256 sd rnd wallet expiresSec candidate =
             Inr (candidate = sha256 job) \<and>
           (checkMiningJobHash sha256 sd rnd wallet expiresSec candidate = Inr True
              \<longleftrightarrow> candidate = sha256 job) \<and>
           (checkMiningJobHash sha256 sd rnd wallet expiresSec candidate = Inr False
              \<longleftrightarrow> candidate \<noteq> sha256 job)"
  using assms by (simp add: checkMiningJobHash_def createMiningJob_def)

theorem checkMiningJobHash_iff_witness:
  "workChain \<lparr>workChain = 0, hash = replicate 32 7\<rparr> = 0 \<and>
   (\<exists>job. createMiningJob [1, 2] [3] \<lparr>workChain = 0, hash = replicate 32 7\<rparr> 5 = Inr job \<and>
      checkMiningJobHash rev [1, 2] [3] \<lparr>workChain = 0, hash = replicate 32 7\<rparr> 5 [9] =
        Inr ([9] = rev job) \<and>
      (checkMiningJobHash rev [1, 2] [3] \<lparr>workChain = 0, hash = replicate 32 7\<rparr> 5 [9] = Inr True
         \<longleftrightarrow> [9] = rev job) \<and>
      (checkMiningJobHash rev [1, 2] [3] \<lparr>workChain = 0, hash = replicate 32 7\<rparr> 5 [9] = Inr False
         \<longleftrightarrow> [9] \<noteq> rev job))"
proof -
  have h: "workChain \<lparr>workChain = 0, hash = replicate 32 7\<rparr> = 0" by simp
  from h checkMiningJobHash_iff [OF h] show ?thesis by (rule conjI)
qed

section \<open>Padding\<close>

text \<open>
  C8. For every buffer \<open>b\<close> and size \<open>n\<close> with \<open>length b \<le> n\<close>, \<open>padded b n\<close>
  returns a buffer of length exactly \<open>n\<close> whose last \<open>length b\<close> bytes are \<open>b\<close> and
  whose first \<open>n - length b\<close> bytes are all zero.
\<close>

theorem padded_right_aligned:
  assumes "int (length b) \<le> n"
  shows "\<exists>r. padded b n = Inr r \<and> length r = nat n \<and>
           drop (nat n - length b) r = b \<and>
           (\<forall>i < nat n - length b. r ! i = 0)"
proof -
  let ?r = "replicate (nat n - length b) 0 @ b"
  have "padded b n = Inr ?r"
    using assms by (rule padded_fits)
  moreover have "length ?r = nat n"
    using assms by simp
  moreover have "drop (nat n - length b) ?r = b"
    by simp
  moreover have "\<forall>i < nat n - length b. ?r ! i = 0"
    by (simp add: nth_append)
  ultimately show ?thesis by blast
qed

theorem padded_right_aligned_witness:
  "int (length [0xAB, 0xCD :: byte]) \<le> 5 \<and>
   (\<exists>r. padded [0xAB, 0xCD] 5 = Inr r \<and> length r = nat 5 \<and>
      drop (nat 5 - length [0xAB, 0xCD :: byte]) r = [0xAB, 0xCD] \<and>
      (\<forall>i < nat 5 - length [0xAB, 0xCD :: byte]. r ! i = 0))"
proof -
  have h: "int (length [0xAB, 0xCD :: byte]) \<le> 5" by simp
  from h padded_right_aligned [OF h] show ?thesis by (rule conjI)
qed

text \<open>
  C6, as the code has it. \<open>padded\<close> has no size check. For every buffer \<open>b\<close> and size
  \<open>n\<close> with \<open>0 \<le> n < length b\<close> it raises no error and returns the last \<open>n\<close> bytes
  of \<open>b\<close>: the leading \<open>length b - n\<close> bytes are dropped. Only a negative \<open>n\<close>
  fails, in \<open>Buffer.alloc\<close>, with a range error.
\<close>

theorem padded_oversize_truncates:
  assumes "n < int (length b)"
  shows "padded b n = (if n < 0 then Inl RangeError else Inr (drop (length b - nat n) b))"
proof (cases "n < 0")
  case True
  then show ?thesis by (simp add: padded_negative)
next
  case False
  with assms show ?thesis by (simp add: padded_drop)
qed

theorem padded_oversize_truncates_witness:
  "4 < int (length [1, 2, 3, 4, 5, 6 :: byte]) \<and>
   padded [1, 2, 3, 4, 5, 6] 4 = Inr [3, 4, 5, 6]"
proof -
  have h: "4 < int (length [1, 2, 3, 4, 5, 6 :: byte])" by simp
  from padded_oversize_truncates [OF h] have "padded [1, 2, 3, 4, 5, 6] 4 = Inr [3, 4, 5, 6]"
    by simp
  with h show ?thesis by (rule conjI)
qed

text \<open>
  The claim as the spec states it fails: a buffer of 3 bytes padded to size 2 is not
  rejected, it comes back without its first byte.
\<close>

theorem padded_oversize_counterexample:
  "2 < int (length [1, 2, 3 :: byte]) \<and> padded [1, 2, 3] 2 = Inr [2, 3]"
  by (simp add: padded_drop)

section \<open>Hexadecimal strings\<close>

text \<open>
  C9. \<open>parseHex\<close> is invariant under the prefix markers and the odd-length padding:
  for every string \<open>s\<close> of hexadecimal digits, \<open>x\<close> followed by \<open>s\<close> and \<open>0x\<close>
  followed by \<open>s\<close> decode to the same bytes as \<open>s\<close>, and when \<open>s\<close> has odd length,
  \<open>0\<close> followed by \<open>s\<close> decodes to the same bytes as \<open>s\<close>. In particular \<open>x1a2b\<close>,
  \<open>0x1a2b\<close> and \<open>1a2b\<close> decode to the same bytes \<open>1A 2B\<close>, and \<open>abc\<close> decodes to
  the same bytes as \<open>0abc\<close>, \<open>0A BC\<close>.
\<close>

theorem parseHex_normalisation_invariant:
  assumes "\<forall>c\<in>set s. isHexDigit c"
  shows "parseHex (str ''x'' @ s) = parseHex s \<and>
         parseHex (str ''0x'' @ s) = parseHex s \<and>
         (odd (length s) \<longrightarrow> parseHex (str ''0'' @ s) = parseHex s) \<and>
         parseHex (str ''x1a2b'') = parseHex (str ''0x1a2b'') \<and>
         parseHex (str ''0x1a2b'') = parseHex (str ''1a2b'') \<and>
         parseHex (str ''1a2b'') = Inr [0x1A, 0x2B] \<and>
         parseHex (str ''abc'') = parseHex (str ''0abc'') \<and>
         parseHex (str ''0abc'') = Inr [0x0A, 0xBC]"
proof -
  have g1: "parseHex (str ''x'' @ s) = parseHex s"
    using assms by (simp add: parseHex_def normalise_x_digits)
  have g2: "parseHex (str ''0x'' @ s) = parseHex s"
    using assms by (simp add: parseHex_def normalise_0x_digits)
  have g3: "odd (length s) \<longrightarrow> parseHex (str ''0'' @ s) = parseHex s"
    using assms by (simp add: parseHex_def normalise_0_digits)
  have e1: "parseHex (str ''x1a2b'') = Inr [0x1A, 0x2B]"
    by (simp add: parseHex_def parseHex_normalise_def startsWith_def str_def unhex_def
        hexDigitValue_def)
  have e2: "parseHex (str ''0x1a2b'') = Inr [0x1A, 0x2B]"
    by (simp add: parseHex_def parseHex_normalise_def startsWith_def str_def unhex_def
        hexDigitValue_def)
  have e3: "parseHex (str ''1a2b'') = Inr [0x1A, 0x2B]"
    by (simp add: parseHex_def parseHex_normalise_def startsWith_def str_def unhex_def
        hexDigitValue_def)
  have e4: "parseHex (str ''abc'') = Inr [0x0A, 0xBC]"
    by (simp add: parseHex_def parseHex_normalise_def startsWith_def str_def unhex_def
        hexDigitValue_def)
  have e5: "parseHex (str ''0abc'') = Inr [0x0A, 0xBC]"
    by (simp add: parseHex_def parseHex_normalise_def startsWith_def str_def unhex_def
        hexDigitValue_def)
  from g1 g2 g3 e1 e2 e3 e4 e5 show ?thesis by simp
qed

theorem parseHex_normalisation_invariant_witness:
  "str ''1a2'' = [0x31, 0x61, 0x32] \<and>
   isHexDigit 0x31 \<and> isHexDigit 0x61 \<and> isHexDigit 0x32 \<and>
   parseHex (str ''x'' @ str ''1a2'') = parseHex (str ''1a2'') \<and>
   parseHex (str ''0x'' @ str ''1a2'') = parseHex (str ''1a2'') \<and>
   odd (length (str ''1a2'')) \<and>
   parseHex (str ''0'' @ str ''1a2'') = parseHex (str ''1a2'') \<and>
   parseHex (str ''1a2'') = Inr [0x01, 0xA2]"
proof -
  have h: "\<forall>c\<in>set (str ''1a2''). isHexDigit c"
    by (simp add: str_def isHexDigit_def hexDigitValue_def)
  have o: "odd (length (str ''1a2''))"
    by (simp add: str_def)
  have v: "parseHex (str ''1a2'') = Inr [0x01, 0xA2]"
    by (simp add: parseHex_def parseHex_normalise_def startsWith_def str_def unhex_def
        hexDigitValue_def)
  from parseHex_normalisation_invariant [OF h] o have
    "parseHex (str ''x'' @ str ''1a2'') = parseHex (str ''1a2'')"
    "parseHex (str ''0x'' @ str ''1a2'') = parseHex (str ''1a2'')"
    "parseHex (str ''0'' @ str ''1a2'') = parseHex (str ''1a2'')"
    by simp_all
  moreover have "str ''1a2'' = [0x31, 0x61, 0x32]"
    by (simp add: str_def)
  moreover have "isHexDigit 0x31" "isHexDigit 0x61" "isHexDigit 0x32"
    by (simp_all add: isHexDigit_def hexDigitValue_def)
  ultimately show ?thesis using o v by (intro conjI)
qed

text \<open>
  C7, as the code has it. \<open>parseHex\<close> never fails. For every input string whose
  normalised form (after the \<open>x\<close> and \<open>0x\<close> stripping and the \<open>0\<close> padding) holds a
  character that is not a hexadecimal digit, \<open>parseHex\<close> returns a buffer. The decoder
  reads each character by the low byte of its code unit. The normalised string splits
  into an even-length prefix whose low bytes are all hexadecimal digits, and a rest that
  is empty or starts with a pair in which a low byte is not a hexadecimal digit. The
  result is the buffer decoded from that prefix alone, one byte per pair: byte \<open>i\<close> is
  \<open>16 x + y\<close> for the digit values \<open>x\<close> and \<open>y\<close> of the low bytes of characters
  \<open>2 i\<close> and \<open>2 i + 1\<close>. The refused pair and everything after it are dropped; a
  character that is not a hexadecimal digit but whose low byte is one is decoded as that
  digit.
\<close>

theorem parseHex_stops_at_bad_pair:
  assumes "\<exists>c\<in>set (parseHex_normalise src). \<not> isHexDigit c"
  shows "\<exists>p r. parseHex_normalise src = p @ r \<and> even (length p) \<and>
           (\<forall>c\<in>set p. unhex c \<noteq> None) \<and>
           (r = [] \<or> (\<exists>a b t. r = a # b # t \<and> \<not> (unhex a \<noteq> None \<and> unhex b \<noteq> None))) \<and>
           parseHex src = Inr (hexDecode p) \<and> length (hexDecode p) = length p div 2 \<and>
           (\<forall>i < length p div 2. \<exists>x y.
              unhex (p ! (2 * i)) = Some x \<and> unhex (p ! (2 * i + 1)) = Some y \<and>
              hexDecode p ! i = of_nat (16 * x + y))"
proof -
  from accepted_prefix [OF parseHex_normalise_even [of src]] obtain p r where
    p: "parseHex_normalise src = p @ r" "even (length p)" "\<forall>c\<in>set p. unhex c \<noteq> None"
       "r = [] \<or> (\<exists>a b t. r = a # b # t \<and> \<not> (unhex a \<noteq> None \<and> unhex b \<noteq> None))"
    by blast
  have "hexDecode (p @ r) = hexDecode p"
    using p(2,3,4) by (rule hexDecode_prefix)
  then have run: "parseHex src = Inr (hexDecode p)"
    by (simp add: parseHex_def p(1))
  have len: "length (hexDecode p) = length p div 2"
    using p(2,3) by (rule hexDecode_length)
  have bytes: "\<forall>i < length p div 2. \<exists>x y.
      unhex (p ! (2 * i)) = Some x \<and> unhex (p ! (2 * i + 1)) = Some y \<and>
      hexDecode p ! i = of_nat (16 * x + y)"
  proof (intro allI impI)
    fix i
    assume "i < length p div 2"
    then show "\<exists>x y. unhex (p ! (2 * i)) = Some x \<and> unhex (p ! (2 * i + 1)) = Some y \<and>
        hexDecode p ! i = of_nat (16 * x + y)"
      by (rule hexDecode_nth [OF p(2,3)])
  qed
  from p run len bytes have
    "parseHex_normalise src = p @ r \<and> even (length p) \<and>
     (\<forall>c\<in>set p. unhex c \<noteq> None) \<and>
     (r = [] \<or> (\<exists>a b t. r = a # b # t \<and> \<not> (unhex a \<noteq> None \<and> unhex b \<noteq> None))) \<and>
     parseHex src = Inr (hexDecode p) \<and> length (hexDecode p) = length p div 2 \<and>
     (\<forall>i < length p div 2. \<exists>x y.
        unhex (p ! (2 * i)) = Some x \<and> unhex (p ! (2 * i + 1)) = Some y \<and>
        hexDecode p ! i = of_nat (16 * x + y))"
    by (intro conjI)
  then show ?thesis by (intro exI)
qed

theorem parseHex_stops_at_bad_pair_witness:
  "(\<exists>c\<in>set (parseHex_normalise (str ''0x1a2bzz3c'')). \<not> isHexDigit c) \<and>
   (\<exists>p r. parseHex_normalise (str ''0x1a2bzz3c'') = p @ r \<and> even (length p) \<and>
      (\<forall>c\<in>set p. unhex c \<noteq> None) \<and>
      (r = [] \<or> (\<exists>a b t. r = a # b # t \<and> \<not> (unhex a \<noteq> None \<and> unhex b \<noteq> None))) \<and>
      parseHex (str ''0x1a2bzz3c'') = Inr (hexDecode p) \<and>
      length (hexDecode p) = length p div 2 \<and>
      (\<forall>i < length p div 2. \<exists>x y.
         unhex (p ! (2 * i)) = Some x \<and> unhex (p ! (2 * i + 1)) = Some y \<and>
         hexDecode p ! i = of_nat (16 * x + y))) \<and>
   parseHex (str ''0x1a2bzz3c'') = Inr [0x1A, 0x2B] \<and>
   parseHex [0x66, 0x66, 0x131, 0x131] = Inr [0xFF, 0x11]"
proof -
  have h: "\<exists>c\<in>set (parseHex_normalise (str ''0x1a2bzz3c'')). \<not> isHexDigit c"
    by (simp add: parseHex_normalise_def startsWith_def str_def isHexDigit_def hexDigitValue_def)
  have v: "parseHex (str ''0x1a2bzz3c'') = Inr [0x1A, 0x2B]"
    by (simp add: parseHex_def parseHex_normalise_def startsWith_def str_def unhex_def
        hexDigitValue_def)
  have w: "parseHex [0x66, 0x66, 0x131, 0x131] = Inr [0xFF, 0x11]"
    by (simp add: parseHex_def parseHex_normalise_def startsWith_def str_def unhex_def
        hexDigitValue_def)
  from h parseHex_stops_at_bad_pair [OF h] v w show ?thesis by (intro conjI)
qed

text \<open>
  The claim as the spec states it fails: \<open>1azz\<close> is already normalised and holds the
  character \<open>z\<close>, yet \<open>parseHex\<close> returns the one-byte buffer \<open>1A\<close>.
\<close>

theorem parseHex_bad_digit_counterexample:
  "parseHex_normalise (str ''1azz'') = str ''1azz'' \<and> \<not> isHexDigit 0x7A \<and>
   str ''1azz'' = [0x31, 0x61, 0x7A, 0x7A] \<and>
   parseHex (str ''1azz'') = Inr [0x1A]"
  by (simp add: parseHex_def parseHex_normalise_def startsWith_def str_def unhex_def
      isHexDigit_def hexDigitValue_def)


section \<open>The state layout\<close>

text \<open>
  C3. For every bit sequence of at least 704 bits, \<open>extractPowParamsFromState\<close>
  succeeds, skips the first 320 bits, and returns a seed of 16 bytes and a complexity of
  32 bytes such that bit \<open>j\<close> (counted from the most significant) of byte \<open>k\<close> of the
  seed is bit \<open>320 + 8 k + j\<close> of the sequence, and bit \<open>j\<close> of byte \<open>k\<close> of the
  complexity is bit \<open>448 + 8 k + j\<close> of the sequence: the seed is bits 320 to 447 and
  the complexity bits 448 to 703, in the order in which they are stored.
\<close>

theorem extractPowParamsFromState_layout:
  assumes "704 \<le> length (cellBits c)"
  shows "\<exists>p. extractPowParamsFromState c = Inr p \<and>
           length (seed p) = 16 \<and> length (complexity p) = 32 \<and>
           (\<forall>k<16. \<forall>j<8. bit (seed p ! k) (7 - j) = cellBits c ! (320 + 8 * k + j)) \<and>
           (\<forall>k<32. \<forall>j<8. bit (complexity p ! k) (7 - j) = cellBits c ! (448 + 8 * k + j))"
proof -
  let ?bs = "cellBits c"
  let ?p = "\<lparr>seed = bytesOfBits 16 (drop 320 ?bs), complexity = bytesOfBits 32 (drop 448 ?bs)\<rparr>"
  have run: "extractPowParamsFromState c = Inr ?p"
    using assms
    by (simp add: extractPowParamsFromState_def skip_def readBuffer_def newBitStringReader_def)
  have s: "\<forall>k<16. \<forall>j<8. bit (seed ?p ! k) (7 - j) = ?bs ! (320 + 8 * k + j)"
    using assms by (simp add: bytesOfBits_bit)
  have x: "\<forall>k<32. \<forall>j<8. bit (complexity ?p ! k) (7 - j) = ?bs ! (448 + 8 * k + j)"
    using assms by (simp add: bytesOfBits_bit)
  have l: "length (seed ?p) = 16 \<and> length (complexity ?p) = 32"
    by (simp add: bytesOfBits_length)
  from run s x l show ?thesis by blast
qed

theorem extractPowParamsFromState_layout_witness:
  "704 \<le> length (cellBits \<lparr>cellBits = replicate 320 True @ replicate 128 False @ replicate 256 True\<rparr>) \<and>
   (\<exists>p. extractPowParamsFromState
           \<lparr>cellBits = replicate 320 True @ replicate 128 False @ replicate 256 True\<rparr> = Inr p \<and>
      length (seed p) = 16 \<and> length (complexity p) = 32 \<and>
      (\<forall>k<16. \<forall>j<8. bit (seed p ! k) (7 - j) =
         cellBits \<lparr>cellBits = replicate 320 True @ replicate 128 False @ replicate 256 True\<rparr>
           ! (320 + 8 * k + j)) \<and>
      (\<forall>k<32. \<forall>j<8. bit (complexity p ! k) (7 - j) =
         cellBits \<lparr>cellBits = replicate 320 True @ replicate 128 False @ replicate 256 True\<rparr>
           ! (448 + 8 * k + j)))"
proof -
  have h: "704 \<le> length (cellBits
      \<lparr>cellBits = replicate 320 True @ replicate 128 False @ replicate 256 True\<rparr>)"
    by simp
  from h extractPowParamsFromState_layout [OF h] show ?thesis by (rule conjI)
qed

section \<open>Lengths are not validated\<close>

text \<open>
  C10. \<open>createMiningJob\<close> checks no length: for every seed and random, of any lengths,
  with a wallet in workchain 0 whose hash has 32 bytes, it succeeds and returns a buffer of
  exactly \<open>43 + length seed + 2 * length random\<close> bytes. A seed or random that is not
  16 bytes long is accepted and gives a job of another length.
\<close>

theorem createMiningJob_length:
  assumes "workChain wallet = 0" and "length (hash wallet) = 32"
  shows "\<exists>job. createMiningJob sd rnd wallet expiresSec = Inr job \<and>
           length job = 43 + length sd + 2 * length rnd"
  using assms
  by (simp add: createMiningJob_def createMiningJobHeader_def Buffer_from_string_def
      createUInt32_def)

theorem createMiningJob_length_witness:
  "workChain \<lparr>workChain = 0, hash = replicate 32 7\<rparr> = 0 \<and>
   length (hash \<lparr>workChain = 0, hash = replicate 32 7\<rparr>) = 32 \<and>
   (\<exists>job. createMiningJob [1, 2, 3] [] \<lparr>workChain = 0, hash = replicate 32 7\<rparr> 5 = Inr job \<and>
      length job = 43 + length [1, 2, 3 :: byte] + 2 * length ([] :: buffer))"
proof -
  have h1: "workChain \<lparr>workChain = 0, hash = replicate 32 7\<rparr> = 0" by simp
  have h2: "length (hash \<lparr>workChain = 0, hash = replicate 32 7\<rparr>) = 32" by simp
  from h1 h2 createMiningJob_length [OF h1 h2] show ?thesis by (intro conjI)
qed

end
